theory Spec2Isabelle
  imports Complex_Main "HOL-Library.Word"
begin

section \<open>Data model\<close>

text \<open>
  An audio frame is a Python \<open>bytes\<close> object.  A finite floating-point number is
  embedded as the rational it denotes, and every floating-point operation of the source
  rounds its exact result to the nearest number of the format, ties to even (\<open>fl\<close>
  below).  NaN is outside the embedding.  An overflowing result is embedded as a finite
  number beyond the range of the format instead of an infinity; the source only compares
  such a result with an integer or clips it, and both give the same outcome for the two.
\<close>

type_synonym byte = "8 word"
type_synonym bytes = "byte list"

datatype py_error = NameError string | AttributeError string | ZeroDivisionError

subsection \<open>Floating-point numbers\<close>

text \<open>
  The two formats of the source: \<open>np.float32\<close>, and \<open>np.float64\<close>, which is also
  Python's \<open>float\<close>.  \<open>precision\<close> is the number of significant bits and
  \<open>emin\<close> the exponent of the smallest normal number.
\<close>

datatype float_type = Float32 | Float64

fun precision :: "float_type \<Rightarrow> int" where
  "precision Float32 = 24"
| "precision Float64 = 53"

fun emin :: "float_type \<Rightarrow> int" where
  "emin Float32 = - 126"
| "emin Float64 = - 1022"

text \<open>The number of binary digits of a positive integer.\<close>

function bitlen :: "int \<Rightarrow> int" where
  "bitlen n = (if n \<le> 0 then 0 else 1 + bitlen (n div 2))"
  by pat_completeness auto
termination
  by (relation "measure nat") auto

declare bitlen.simps [simp del]

definition pow2 :: "int \<Rightarrow> rat" where
  "pow2 e = (if 0 \<le> e then 2 ^ nat e else 1 / 2 ^ nat (- e))"

text \<open>For \<open>x > 0\<close>, the exponent \<open>e\<close> with \<open>2 ^ e \<le> x < 2 ^ (e + 1)\<close>.\<close>

definition ilog2 :: "rat \<Rightarrow> int" where
  "ilog2 x = (if 1 \<le> x then bitlen \<lfloor>x\<rfloor> - 1 else - bitlen (\<lceil>1 / x\<rceil> - 1))"

definition round_half_even :: "rat \<Rightarrow> int" where
  "round_half_even x =
     (let f = \<lfloor>x\<rfloor>; d = x - of_int f
      in if d < 1 / 2 then f else if 1 / 2 < d then f + 1 else if even f then f else f + 1)"

text \<open>
  Rounding to the format: the spacing \<open>q\<close> of the numbers of the format around
  \<open>x\<close> (that of the subnormal numbers below the smallest normal one), and the nearest
  multiple of it.
\<close>

definition fl :: "float_type \<Rightarrow> rat \<Rightarrow> rat" where
  "fl ft x =
     (if x = 0 then 0
      else
        (let e = max (ilog2 \<bar>x\<bar>) (emin ft);
             q = pow2 (e - (precision ft - 1))
         in of_int (round_half_even (x / q)) * q))"

text \<open>A decimal written in the source, such as the default \<open>0.9\<close>, is the nearest double.\<close>

definition py_float :: "rat \<Rightarrow> rat" where
  "py_float x = fl Float64 x"

text \<open>
  Python's product of a float and an int: the int is converted to a float and the
  product is rounded.
\<close>

definition py_mul_float_int :: "rat \<Rightarrow> nat \<Rightarrow> rat" where
  "py_mul_float_int x n = fl Float64 (x * fl Float64 (of_nat n))"

subsection \<open>audio/utils.py: \<open>audio_resample\<close>\<close>

text \<open>
  Objects a global name of the module can be bound to.  The module binds \<open>np\<close>,
  \<open>signal\<close>, \<open>deque\<close>, \<open>webrtcvad\<close> (imports) and its four functions; it contains
  no class and no assignment to any other global name.
\<close>

datatype py_obj = Module string | Callable string | Instance "(string \<times> int) list"

definition utils_globals :: "(string \<times> py_obj) list" where
  "utils_globals =
     [(''np'', Module ''numpy''), (''signal'', Module ''scipy.signal''),
      (''deque'', Callable ''collections.deque''), (''webrtcvad'', Module ''webrtcvad''),
      (''audio_resample'', Callable ''audio_resample''),
      (''audio_float2int'', Callable ''audio_float2int''),
      (''audio_int2float'', Callable ''audio_int2float''),
      (''vad_collector'', Callable ''vad_collector'')]"

definition load_global :: "(string \<times> py_obj) list \<Rightarrow> string \<Rightarrow> py_error + py_obj" where
  "load_global globals name =
     (case map_of globals name of None \<Rightarrow> Inl (NameError name) | Some obj \<Rightarrow> Inr obj)"

fun getattr :: "py_obj \<Rightarrow> string \<Rightarrow> py_error + int" where
  "getattr (Instance fields) name =
     (case map_of fields name of None \<Rightarrow> Inl (AttributeError name) | Some v \<Rightarrow> Inr v)"
| "getattr _ name = Inl (AttributeError name)"

text \<open>
  \<open>audio_resample(data, sample_rate, resample_rate, dtype=None)\<close> on an array
  (\<open>dtype\<close> is \<open>None\<close>; with a \<open>dtype\<close> the bytes are decoded first and the same
  statement follows).  The size is computed from \<open>self.resample_rate\<close> and
  \<open>self.sample_rate\<close>; \<open>self\<close> is not a parameter, so it is looked up among the
  globals.  The parameters \<open>sample_rate\<close> and \<open>resample_rate\<close> are never read.
  \<open>signal.resample\<close> (an FFT) is a parameter of the model.
\<close>

definition audio_resample ::
  "(string \<times> py_obj) list \<Rightarrow> ('a list \<Rightarrow> int \<Rightarrow> 'a list) \<Rightarrow> 'a list \<Rightarrow> int \<Rightarrow> int \<Rightarrow> py_error + 'a list"
where
  "audio_resample globals signal_resample data sample_rate resample_rate =
     (case load_global globals ''self'' of
        Inl e \<Rightarrow> Inl e
      | Inr self \<Rightarrow>
          (case getattr self ''resample_rate'' of
             Inl e \<Rightarrow> Inl e
           | Inr self_resample_rate \<Rightarrow>
               (case getattr self ''sample_rate'' of
                  Inl e \<Rightarrow> Inl e
                | Inr self_sample_rate \<Rightarrow>
                    if self_sample_rate = 0 then Inl ZeroDivisionError
                    else
                      (let size = (int (length data) * self_resample_rate) div self_sample_rate
                       in Inr (signal_resample data size)))))"

subsection \<open>audio/utils.py: \<open>audio_float2int\<close>\<close>

datatype np_int_type = Int8 | Int16 | Int32 | Int64 | UInt8 | UInt16 | UInt32 | UInt64

fun iinfo_bits :: "np_int_type \<Rightarrow> nat" where
  "iinfo_bits Int8 = 8"
| "iinfo_bits Int16 = 16"
| "iinfo_bits Int32 = 32"
| "iinfo_bits Int64 = 64"
| "iinfo_bits UInt8 = 8"
| "iinfo_bits UInt16 = 16"
| "iinfo_bits UInt32 = 32"
| "iinfo_bits UInt64 = 64"

fun is_signed :: "np_int_type \<Rightarrow> bool" where
  "is_signed Int8 = True"
| "is_signed Int16 = True"
| "is_signed Int32 = True"
| "is_signed Int64 = True"
| "is_signed _ = False"


definition iinfo_max :: "np_int_type \<Rightarrow> int" where
  "iinfo_max t = (if is_signed t then 2 ^ (iinfo_bits t - 1) - 1 else 2 ^ iinfo_bits t - 1)"



text \<open>
  \<open>astype\<close> from a float to an integer type is the C conversion: the fraction is
  discarded (rounding toward zero).  For a value beyond the range of the target type C
  leaves the result undefined; the only such value that can reach the conversion after
  the clip is the upper bound rounded up to the next power of two, for which numpy on
  x86-64 gives the minimum of the type.
\<close>

definition trunc :: "rat \<Rightarrow> int" where
  "trunc x = (if x < 0 then \<lceil>x\<rceil> else \<lfloor>x\<rfloor>)"



subsection \<open>audio/utils.py: \<open>vad_collector\<close>\<close>

text \<open>
  \<open>deque(maxlen=n).append(x)\<close>: the item is added on the right, and when the deque is
  then longer than \<open>maxlen\<close> one item is removed on the left.  (\<open>maxlen\<close> is a natural
  number: \<open>deque\<close> rejects a negative one.)
\<close>

definition deque_append :: "nat \<Rightarrow> 'a \<Rightarrow> 'a list \<Rightarrow> 'a list" where
  "deque_append maxlen x dq = (let dq' = dq @ [x] in if length dq' > maxlen then tl dq' else dq')"

text \<open>The local variables of the generator that live across iterations.\<close>

record collector =
  ring_buff :: "(bytes \<times> bool) list"
  triggered :: bool
  voiced_frames :: "bytes list"

definition collector_init :: collector where
  "collector_init = \<lparr>ring_buff = [], triggered = False, voiced_frames = []\<rparr>"

text \<open>
  One iteration of the loop, after the frame has been classified.  The count, an int,
  is compared exactly with the float \<open>act_inact_ratio * ring_buff.maxlen\<close>.  The result is the
  new state and the items yielded in this iteration: \<open>Some\<close> of the joined voiced
  frames, and \<open>None\<close>, the mark of a break in speech.
\<close>

definition vad_body ::
  "nat \<Rightarrow> rat \<Rightarrow> bytes \<Rightarrow> bool \<Rightarrow> collector \<Rightarrow> collector \<times> bytes option list"
where
  "vad_body maxlen act_inact_ratio frame is_speech st =
     (if \<not> triggered st then
        (let rb = deque_append maxlen (frame, is_speech) (ring_buff st);
             num_voiced = length (filter (\<lambda>(f, speech). speech) rb)
         in if of_nat num_voiced > py_mul_float_int act_inact_ratio maxlen
            then (\<lparr>ring_buff = [], triggered = True,
                   voiced_frames = voiced_frames st @ map fst rb\<rparr>, [])
            else (st\<lparr>ring_buff := rb\<rparr>, []))
      else
        (let vf = voiced_frames st @ [frame];
             rb = deque_append maxlen (frame, is_speech) (ring_buff st);
             num_unvoiced = length (filter (\<lambda>(f, speech). \<not> speech) rb)
         in if of_nat num_unvoiced > py_mul_float_int act_inact_ratio maxlen
            then (\<lparr>ring_buff = [], triggered = False, voiced_frames = []\<rparr>,
                  [Some (concat vf), None])
            else (\<lparr>ring_buff = rb, triggered = True, voiced_frames = vf\<rparr>, [])))"

text \<open>
  The \<open>for frame in streamer\<close> loop over a finite stream.  When the stream is
  exhausted the generator returns: nothing is yielded after the loop.
\<close>

fun vad_loop ::
  "(bytes \<Rightarrow> nat \<Rightarrow> bool) \<Rightarrow> nat \<Rightarrow> nat \<Rightarrow> rat \<Rightarrow> (bytes \<Rightarrow> bytes) \<Rightarrow> bytes list \<Rightarrow> collector
     \<Rightarrow> collector \<times> bytes option list"
where
  "vad_loop vad rate maxlen ratio conv [] st = (st, [])"
| "vad_loop vad rate maxlen ratio conv (frame # streamer) st =
     (let vad_frame = conv frame;
          is_speech = vad vad_frame rate;
          (st', out) = vad_body maxlen ratio frame is_speech st;
          (st'', outs) = vad_loop vad rate maxlen ratio conv streamer st'
      in (st'', out @ outs))"

definition vad_collector ::
  "bytes list \<Rightarrow> (bytes \<Rightarrow> nat \<Rightarrow> bool) \<Rightarrow> nat \<Rightarrow> nat \<Rightarrow> rat \<Rightarrow> (bytes \<Rightarrow> bytes) \<Rightarrow> bytes option list"
where
  "vad_collector streamer vad rate num_padding_frames act_inact_ratio frame_dtype_conv_fn =
     snd (vad_loop vad rate num_padding_frames act_inact_ratio frame_dtype_conv_fn
            streamer collector_init)"

text \<open>
  The shape of a yielded sequence: joined voiced frames, each followed at once by one
  \<open>None\<close>, and nothing else.  \<open>segments_nonempty\<close> asks in addition that the joined
  frames are not the empty bytes object.
\<close>

fun segments_then_marks :: "bytes option list \<Rightarrow> bool" where
  "segments_then_marks [] = True"
| "segments_then_marks (Some seg # None # rest) = segments_then_marks rest"
| "segments_then_marks _ = False"

fun segments_nonempty :: "bytes option list \<Rightarrow> bool" where
  "segments_nonempty [] = True"
| "segments_nonempty (Some seg # rest) = (seg \<noteq> [] \<and> segments_nonempty rest)"
| "segments_nonempty (None # rest) = segments_nonempty rest"

text \<open>
  The number of bytes yielded in segments, and the number of bytes held for the segment
  in progress (in the silent state the ring buffer holds its candidates).
\<close>

fun yielded_bytes :: "bytes option list \<Rightarrow> nat" where
  "yielded_bytes [] = 0"
| "yielded_bytes (Some seg # rest) = length seg + yielded_bytes rest"
| "yielded_bytes (None # rest) = yielded_bytes rest"

definition held_bytes :: "collector \<Rightarrow> nat" where
  "held_bytes st =
     (if triggered st then length (concat (voiced_frames st))
      else length (concat (voiced_frames st)) + length (concat (map fst (ring_buff st))))"

subsection \<open>Speech/SpeechRecognizer.py: \<open>_handle_responses\<close>\<close>

record alternative =
  transcript :: string
  confidence :: rat

record result =
  alternatives :: "alternative list"
  is_final :: bool

record response =
  results :: "result list"

text \<open>
  What \<open>_handle_responses\<close> acts on: the batcher (an object with state of its own),
  the calls made to \<open>text_batch_processor.process\<close>, and the lines printed.
\<close>

record 'b effects =
  batcher_state :: 'b
  processed :: "(string list \<times> bool) list"
  printed :: "string list"

type_synonym 'b batcher = "'b \<Rightarrow> string \<Rightarrow> bool \<Rightarrow> string list option \<times> 'b"

text \<open>Python's \<open>int\<close> of a float discards the fraction.\<close>

definition py_int :: "rat \<Rightarrow> int" where
  "py_int x = trunc x"

text \<open>\<open>print(a, b, c)\<close>: the arguments separated by blanks, then a newline.\<close>

definition py_print :: "string \<Rightarrow> string \<Rightarrow> string \<Rightarrow> string" where
  "py_print a b c = a @ '' '' @ b @ '' '' @ c @ [CHR 0x0A]"

definition final_report :: "string \<Rightarrow> string" where
  "final_report text =
     py_print (''--Final--'' @ [CHR 0x0A]) text ([CHR 0x0A] @ ''---'' @ [CHR 0x0A])"

text \<open>The condition of the outer \<open>if\<close>.\<close>

definition passes_filter :: "response \<Rightarrow> bool" where
  "passes_filter response =
     (case results response of
        [] \<Rightarrow> False
      | result # _ \<Rightarrow> length (results response) > 1 \<or> is_final result)"

text \<open>A batch is truthy when it is neither \<open>None\<close> nor an empty list.\<close>

fun truthy :: "string list option \<Rightarrow> bool" where
  "truthy None = False"
| "truthy (Some b) = (b \<noteq> [])"

text \<open>
  The value the source computes for \<open>confidence\<close> from the first alternative:
  \<open>int(100 * confidence)\<close>, with the rounded product.
\<close>

definition confidence_percent :: "alternative \<Rightarrow> int" where
  "confidence_percent alt = py_int (py_mul_float_int (confidence alt) 100)"

text \<open>
  The body of the loop for one response.  \<open>confidence\<close> is computed as in the source;
  no later statement of the source reads it.
\<close>

definition handle_response :: "'b batcher option \<Rightarrow> response \<Rightarrow> 'b effects \<Rightarrow> 'b effects" where
  "handle_response text_batcher response w =
     (if passes_filter response then
        (let result = hd (results response) in
         case alternatives result of
           [] \<Rightarrow> w
         | alt # _ \<Rightarrow>
             (let text = transcript alt;
                  confidence = confidence_percent alt;
                  (batch, w1) =
                    (case text_batcher of
                       Some get_batch \<Rightarrow>
                         (let (b, s) = get_batch (batcher_state w) text (is_final result)
                          in (b, w\<lparr>batcher_state := s\<rparr>))
                     | None \<Rightarrow> (if is_final result then Some [text] else None, w));
                  w2 = (if truthy batch
                        then w1\<lparr>processed := processed w1 @ [(the batch, is_final result)]\<rparr>
                        else w1)
              in if is_final result
                 then w2\<lparr>printed := printed w2 @ [final_report text]\<rparr>
                 else w2))
      else w)"

definition handle_responses :: "'b batcher option \<Rightarrow> response list \<Rightarrow> 'b effects \<Rightarrow> 'b effects" where
  "handle_responses text_batcher responses w = fold (handle_response text_batcher) responses w"

text \<open>Whether a printed text contains a given substring.\<close>

fun contains :: "string \<Rightarrow> string \<Rightarrow> bool" where
  "contains [] sub = (sub = [])"
| "contains (c # cs) sub = (take (length sub) (c # cs) = sub \<or> contains cs sub)"

section \<open>Floating-point rounding\<close>

text \<open>
  \<open>ilog2\<close> is the binary exponent of a positive number, and \<open>fl\<close> returns a
  multiple of the spacing at that exponent within half a spacing of its argument.
\<close>

lemma bitlen_nonpos: "n \<le> 0 \<Longrightarrow> bitlen n = 0"
  by (subst bitlen.simps) simp

lemma bitlen_rec: "0 < n \<Longrightarrow> bitlen n = 1 + bitlen (n div 2)"
  by (subst bitlen.simps) simp

lemma bitlen_nonneg: "0 \<le> bitlen n"
proof (induction n rule: bitlen.induct)
  case (1 n)
  then show ?case
    by (cases "n \<le> 0") (simp_all add: bitlen_nonpos bitlen_rec)
qed

lemma bitlen_pos: "0 < n \<Longrightarrow> 0 < bitlen n"
  using bitlen_nonneg [of "n div 2"] by (simp add: bitlen_rec)

lemma bitlen_bounds:
  "0 < n \<Longrightarrow> 2 ^ nat (bitlen n - 1) \<le> n \<and> n < 2 ^ nat (bitlen n)"
proof (induction n rule: bitlen.induct)
  case (1 n)
  have step: "bitlen n = 1 + bitlen (n div 2)"
    using "1.prems" by (rule bitlen_rec)
  show ?case
  proof (cases "n = 1")
    case True
    then show ?thesis
      by (simp add: bitlen_rec bitlen_nonpos)
  next
    case False
    with "1.prems" have pos: "0 < n div 2" by simp
    with "1.prems" "1.IH"
    have ih: "2 ^ nat (bitlen (n div 2) - 1) \<le> n div 2 \<and> n div 2 < 2 ^ nat (bitlen (n div 2))"
      by simp
    have k: "0 < bitlen (n div 2)"
      using pos by (rule bitlen_pos)
    then have suc: "nat (bitlen (n div 2)) = Suc (nat (bitlen (n div 2) - 1))"
      by simp
    have "n div 2 + 1 \<le> 2 ^ nat (bitlen (n div 2))"
      using ih by simp
    then have "n < 2 * 2 ^ nat (bitlen (n div 2))"
      by linarith
    moreover have "(2::int) ^ nat (bitlen (n div 2)) \<le> 2 * (n div 2)"
      using ih by (subst suc) simp
    then have "(2::int) ^ nat (bitlen (n div 2)) \<le> n"
      by linarith
    ultimately show ?thesis
      using k by (simp add: step nat_add_distrib)
  qed
qed

lemma pow2_pos: "0 < pow2 e"
  by (simp add: pow2_def)

lemma ilog2_bounds:
  assumes "0 < x"
  shows "pow2 (ilog2 x) \<le> x \<and> x < pow2 (ilog2 x + 1)"
proof (cases "1 \<le> x")
  case True
  then have n: "0 < \<lfloor>x\<rfloor>" by simp
  from bitlen_bounds [OF n]
  have lo: "(2::int) ^ nat (bitlen \<lfloor>x\<rfloor> - 1) \<le> \<lfloor>x\<rfloor>" and hi: "\<lfloor>x\<rfloor> < 2 ^ nat (bitlen \<lfloor>x\<rfloor>)"
    by simp_all
  have k: "0 < bitlen \<lfloor>x\<rfloor>" using n by (rule bitlen_pos)
  have "(of_int (2 ^ nat (bitlen \<lfloor>x\<rfloor> - 1)) :: rat) \<le> of_int \<lfloor>x\<rfloor>"
    using lo by (simp only: of_int_le_iff)
  also have "\<dots> \<le> x" by simp
  finally have a: "(2::rat) ^ nat (bitlen \<lfloor>x\<rfloor> - 1) \<le> x" by simp
  have "\<lfloor>x\<rfloor> + 1 \<le> 2 ^ nat (bitlen \<lfloor>x\<rfloor>)" using hi by simp
  then have "(of_int (\<lfloor>x\<rfloor> + 1) :: rat) \<le> of_int (2 ^ nat (bitlen \<lfloor>x\<rfloor>))"
    by (simp only: of_int_le_iff)
  moreover have "x < of_int (\<lfloor>x\<rfloor> + 1)" by linarith
  ultimately have b: "x < 2 ^ nat (bitlen \<lfloor>x\<rfloor>)" by simp
  from a b k True show ?thesis
    by (simp add: ilog2_def pow2_def)
next
  case False
  with assms have y: "1 < 1 / x" by simp
  let ?m = "\<lceil>1 / x\<rceil>"
  have m: "0 < ?m - 1" using y by linarith
  from bitlen_bounds [OF m]
  have lo: "(2::int) ^ nat (bitlen (?m - 1) - 1) \<le> ?m - 1" and hi: "?m - 1 < 2 ^ nat (bitlen (?m - 1))"
    by simp_all
  have k: "0 < bitlen (?m - 1)" using m by (rule bitlen_pos)
  have "1 / x \<le> of_int ?m" by linarith
  also have "(of_int ?m :: rat) \<le> of_int (2 ^ nat (bitlen (?m - 1)))"
    using hi by simp
  finally have "1 / x \<le> 2 ^ nat (bitlen (?m - 1))" by simp
  then have a: "1 / 2 ^ nat (bitlen (?m - 1)) \<le> x"
    using assms by (simp add: field_simps)
  have "(of_int (2 ^ nat (bitlen (?m - 1) - 1)) :: rat) \<le> of_int (?m - 1)"
    using lo by (simp only: of_int_le_iff)
  moreover have "(of_int (?m - 1) :: rat) < 1 / x" by linarith
  ultimately have "(2::rat) ^ nat (bitlen (?m - 1) - 1) < 1 / x" by simp
  then have b: "x < 1 / 2 ^ nat (bitlen (?m - 1) - 1)"
    using assms by (simp add: field_simps)
  show ?thesis
  proof (cases "bitlen (?m - 1) = 1")
    case True
    with a b False show ?thesis
      by (simp add: ilog2_def pow2_def)
  next
    case False
    with k have "1 < bitlen (?m - 1)" by simp
    moreover from this have "nat (bitlen (?m - 1) - 1) = nat (- (1 - bitlen (?m - 1)))"
      by simp
    ultimately show ?thesis
      using a b \<open>\<not> 1 \<le> x\<close> by (simp add: ilog2_def pow2_def)
  qed
qed

lemma round_half_even_close: "\<bar>of_int (round_half_even y) - y\<bar> \<le> 1 / 2"
proof -
  have "of_int \<lfloor>y\<rfloor> \<le> y" and "y < of_int \<lfloor>y\<rfloor> + 1"
    by linarith+
  then show ?thesis
    by (auto simp: round_half_even_def Let_def)
qed

lemma scale_abs:
  fixes a x q :: rat
  assumes "0 < q"
  shows "\<bar>a - x / q\<bar> * q = \<bar>a * q - x\<bar>"
proof -
  have "\<bar>a - x / q\<bar> * q = \<bar>a - x / q\<bar> * \<bar>q\<bar>"
    using assms by simp
  also have "\<dots> = \<bar>(a - x / q) * q\<bar>"
    by (simp only: abs_mult)
  also have "(a - x / q) * q = a * q - x"
    using assms by (simp add: left_diff_distrib)
  finally show ?thesis .
qed

text \<open>The rounded number is within half the spacing of the exact one.\<close>

lemma fl_close:
  "x \<noteq> 0 \<Longrightarrow>
     \<bar>fl ft x - x\<bar> \<le> pow2 (max (ilog2 \<bar>x\<bar>) (emin ft) - (precision ft - 1)) / 2"
proof -
  let ?q = "pow2 (max (ilog2 \<bar>x\<bar>) (emin ft) - (precision ft - 1))"
  assume "x \<noteq> 0"
  have q: "0 < ?q" by (rule pow2_pos)
  have "\<bar>of_int (round_half_even (x / ?q)) - x / ?q\<bar> \<le> 1 / 2"
    by (rule round_half_even_close)
  then have "\<bar>of_int (round_half_even (x / ?q)) - x / ?q\<bar> * ?q \<le> 1 / 2 * ?q"
    using q by (simp only: mult_le_cancel_right_pos)
  moreover have "\<bar>of_int (round_half_even (x / ?q)) - x / ?q\<bar> * ?q
      = \<bar>of_int (round_half_even (x / ?q)) * ?q - x\<bar>"
    using q by (rule scale_abs)
  ultimately show ?thesis
    using \<open>x \<noteq> 0\<close> by (simp only: fl_def Let_def if_False)
qed

subsection \<open>Rounded products\<close>

lemma py_mul_float_int_zero: "py_mul_float_int x 0 = 0"
  by (simp add: py_mul_float_int_def fl_def)

text \<open>
  The default threshold \<open>0.9 * 20\<close> is the double 18.  Other products are not the
  exact ones: \<open>0.58 * 50\<close> is a double below 29, and \<open>0.6 * 5\<close> is the double 3
  although the double \<open>0.6\<close> is less than 3/5.
\<close>

lemma default_threshold: "py_mul_float_int (py_float (9/10)) 20 = 18"
  by code_simp

lemma rounded_products:
  "py_float (1/10) = 3602879701896397 / 36028797018963968"
  "py_mul_float_int (py_float (29/50)) 50 = 8162774324609023 / 281474976710656"
  "py_mul_float_int (py_float (3/5)) 5 = 3"
  "py_float (3/5) * 5 < 3"
  "py_mul_float_int (py_float (7/10)) 20 = 14"
  by code_simp+

lemma exact_products:
  "py_mul_float_int (1/2) 2 = 1"
  "py_mul_float_int (1/2) 4 = 2"
  "py_mul_float_int (1/2) 10 = 5"
  by code_simp+

section \<open>The ring buffer\<close>

lemma deque_append_length: "length dq \<le> maxlen \<Longrightarrow> length (deque_append maxlen x dq) \<le> maxlen"
  by (simp add: deque_append_def Let_def)

lemma deque_append_full: "length dq = maxlen \<Longrightarrow> deque_append maxlen x dq = tl (dq @ [x])"
  by (simp add: deque_append_def Let_def)

lemma deque_append_room: "length dq < maxlen \<Longrightarrow> deque_append maxlen x dq = dq @ [x]"
  by (simp add: deque_append_def Let_def)

lemma deque_fold:
  "length dq \<le> maxlen \<Longrightarrow>
     fold (deque_append maxlen) xs dq = drop (length dq + length xs - maxlen) (dq @ xs)"
proof (induction xs arbitrary: dq)
  case Nil
  then show ?case by simp
next
  case (Cons x xs)
  show ?case
  proof (cases "length dq < maxlen")
    case True
    then have "fold (deque_append maxlen) (x # xs) dq = fold (deque_append maxlen) xs (dq @ [x])"
      by (simp add: deque_append_room)
    also have "\<dots> = drop (length (dq @ [x]) + length xs - maxlen) ((dq @ [x]) @ xs)"
      using True by (intro Cons.IH) simp
    finally show ?thesis by simp
  next
    case False
    with Cons.prems have full: "length dq = maxlen" by simp
    have "fold (deque_append maxlen) (x # xs) dq = fold (deque_append maxlen) xs (tl (dq @ [x]))"
      by (simp add: deque_append_full full)
    also have "\<dots> = drop (length (tl (dq @ [x])) + length xs - maxlen) (tl (dq @ [x]) @ xs)"
      using full by (intro Cons.IH) simp
    also have "\<dots> = drop (length dq + length (x # xs) - maxlen) (dq @ x # xs)"
      using full by (cases dq) (simp_all add: drop_Suc)
    finally show ?thesis .
  qed
qed

text \<open>One iteration of the loop, with the state and the yielded items taken apart.\<close>

lemma vad_loop_Cons:
  "vad_loop vad rate maxlen ratio conv (frame # streamer) st =
     (fst (vad_loop vad rate maxlen ratio conv streamer
             (fst (vad_body maxlen ratio frame (vad (conv frame) rate) st))),
      snd (vad_body maxlen ratio frame (vad (conv frame) rate) st) @
      snd (vad_loop vad rate maxlen ratio conv streamer
             (fst (vad_body maxlen ratio frame (vad (conv frame) rate) st))))"
  by (simp add: Let_def case_prod_beta)

lemma vad_body_ring_bound:
  "length (ring_buff st) \<le> maxlen \<Longrightarrow>
     length (ring_buff (fst (vad_body maxlen ratio frame sp st))) \<le> maxlen"
  by (simp add: vad_body_def Let_def deque_append_length)

lemma vad_loop_ring_bound:
  "length (ring_buff st) \<le> maxlen \<Longrightarrow>
     length (ring_buff (fst (vad_loop vad rate maxlen ratio conv frames st))) \<le> maxlen"
proof (induction frames arbitrary: st)
  case Nil
  then show ?case by simp
next
  case (Cons frame frames)
  from Cons.prems
  have "length (ring_buff (fst (vad_body maxlen ratio frame (vad (conv frame) rate) st))) \<le> maxlen"
    by (rule vad_body_ring_bound)
  from Cons.IH [OF this] show ?case
    by (simp only: vad_loop_Cons fst_conv)
qed

text \<open>
  Claim C9.  Whatever is inserted into the ring buffer, it never holds more than
  \<open>maxlen\<close> items: after any insertions into an empty buffer it holds the last
  \<open>maxlen\<close> of them, an insertion into a full buffer removes the oldest item, and the
  buffer of the collector stays within \<open>maxlen\<close> after any stream.
\<close>

theorem ring_buffer_bounded:
  "length (fold (deque_append maxlen) xs []) \<le> maxlen \<and>
   fold (deque_append maxlen) xs [] = drop (length xs - maxlen) xs \<and>
   (length dq = maxlen \<longrightarrow> deque_append maxlen x dq = tl (dq @ [x])) \<and>
   length (ring_buff (fst (vad_loop vad rate maxlen ratio conv frames collector_init))) \<le> maxlen"
proof -
  have "fold (deque_append maxlen) xs [] = drop (length xs - maxlen) xs"
    using deque_fold [of "[]" maxlen xs] by simp
  moreover have "length (drop (length xs - maxlen) xs) \<le> maxlen"
    by simp
  moreover have "length (ring_buff (fst (vad_loop vad rate maxlen ratio conv frames collector_init))) \<le> maxlen"
    by (rule vad_loop_ring_bound) (simp add: collector_init_def)
  ultimately show ?thesis
    by (simp add: deque_append_full)
qed

theorem ring_buffer_bounded_witness:
  "fold (deque_append 3) [1, 2, 3, 4, 5 :: nat] [] = [3, 4, 5] \<and>
   deque_append 3 (4::nat) [1, 2, 3] = [2, 3, 4] \<and>
   length (ring_buff (fst (vad_loop (\<lambda>f r. True) 16000 3 (py_float (9/10)) id [[1], [2], [3], [4]] collector_init))) \<le> 3"
  using ring_buffer_bounded [of 3 "[1, 2, 3, 4, 5 :: nat]" "[1, 2, 3]" 4 "\<lambda>f r. True" 16000 "py_float (9/10)" id "[[1], [2], [3], [4]]"]
  by (simp add: deque_append_def)

section \<open>The segmentation loop\<close>

lemma vad_loop_append:
  "vad_loop vad rate maxlen ratio conv (xs @ ys) st =
     (fst (vad_loop vad rate maxlen ratio conv ys (fst (vad_loop vad rate maxlen ratio conv xs st))),
      snd (vad_loop vad rate maxlen ratio conv xs st) @
      snd (vad_loop vad rate maxlen ratio conv ys (fst (vad_loop vad rate maxlen ratio conv xs st))))"
proof (induction xs arbitrary: st)
  case Nil
  show ?case by simp
next
  case (Cons x xs)
  show ?case
    by (simp only: append_Cons vad_loop_Cons Cons.IH fst_conv snd_conv append_assoc)
qed

text \<open>What one iteration yields, and when.\<close>

lemma vad_body_out:
  "snd (vad_body maxlen ratio frame sp st) =
     (if triggered st \<and>
         of_nat (length (filter (\<lambda>(f, speech). \<not> speech)
                   (deque_append maxlen (frame, sp) (ring_buff st)))) > py_mul_float_int ratio maxlen
      then [Some (concat (voiced_frames st @ [frame])), None] else [])"
  by (simp add: vad_body_def Let_def)

lemma vad_body_triggered:
  "triggered (fst (vad_body maxlen ratio frame sp st)) =
     (if triggered st
      then \<not> of_nat (length (filter (\<lambda>(f, speech). \<not> speech)
                   (deque_append maxlen (frame, sp) (ring_buff st)))) > py_mul_float_int ratio maxlen
      else of_nat (length (filter (\<lambda>(f, speech). speech)
                   (deque_append maxlen (frame, sp) (ring_buff st)))) > py_mul_float_int ratio maxlen)"
  by (simp add: vad_body_def Let_def)

text \<open>While fewer frames have arrived than the threshold, nothing happens.\<close>

lemma deque_append_length_le: "length (deque_append maxlen x dq) \<le> Suc (length dq)"
  by (simp add: deque_append_def Let_def)

lemma early_stream_silent:
  "\<not> triggered st \<Longrightarrow>
   of_nat (length (ring_buff st) + length frames) \<le> py_mul_float_int ratio maxlen \<Longrightarrow>
   \<not> triggered (fst (vad_loop vad rate maxlen ratio conv frames st)) \<and>
   snd (vad_loop vad rate maxlen ratio conv frames st) = []"
proof (induction frames arbitrary: st)
  case Nil
  then show ?case by simp
next
  case (Cons frame frames)
  let ?rb = "deque_append maxlen (frame, vad (conv frame) rate) (ring_buff st)"
  let ?st = "fst (vad_body maxlen ratio frame (vad (conv frame) rate) st)"
  have "length (filter (\<lambda>(f, speech). speech) ?rb) \<le> length ?rb"
    by (rule length_filter_le)
  also have "\<dots> \<le> Suc (length (ring_buff st))"
    by (rule deque_append_length_le)
  finally have cnt: "length (filter (\<lambda>(f, speech). speech) ?rb) \<le> length (ring_buff st) + length (frame # frames)"
    by simp
  have len: "length ?rb + length frames \<le> length (ring_buff st) + length (frame # frames)"
    using deque_append_length_le [of maxlen "(frame, vad (conv frame) rate)" "ring_buff st"] by simp
  have "(of_nat (length (filter (\<lambda>(f, speech). speech) ?rb)) :: rat)
          \<le> of_nat (length (ring_buff st) + length (frame # frames))"
    using cnt by (simp only: of_nat_le_iff)
  with Cons.prems(2) have no: "\<not> of_nat (length (filter (\<lambda>(f, speech). speech) ?rb)) > py_mul_float_int ratio maxlen"
    by linarith
  have st': "?st = st\<lparr>ring_buff := ?rb\<rparr>" and out: "snd (vad_body maxlen ratio frame (vad (conv frame) rate) st) = []"
    using Cons.prems(1) no by (simp_all add: vad_body_def Let_def)
  have "(of_nat (length ?rb + length frames) :: rat) \<le> of_nat (length (ring_buff st) + length (frame # frames))"
    using len by (simp only: of_nat_le_iff)
  with Cons.prems(2) have small: "of_nat (length (ring_buff ?st) + length frames) \<le> py_mul_float_int ratio maxlen"
    by (simp add: st')
  have "\<not> triggered ?st"
    using Cons.prems(1) by (simp add: st')
  from this small have "\<not> triggered (fst (vad_loop vad rate maxlen ratio conv frames ?st)) \<and>
      snd (vad_loop vad rate maxlen ratio conv frames ?st) = []"
    by (rule Cons.IH)
  then show ?case
    by (simp only: vad_loop_Cons fst_conv snd_conv out) simp
qed

text \<open>
  Claim C2.  In the silent state the collector triggers exactly when the number of
  voiced entries of the ring buffer exceeds the float \<open>act_inact_ratio * maxlen\<close>, and
  in the voiced state it releases exactly when the number of unvoiced entries does; the
  bound is the rounded product of the ratio and the configured capacity, not of the
  number of entries held.  In particular a stream with no more frames than the bound
  never triggers, however its frames are classified.
\<close>

theorem threshold_uses_capacity:
  "triggered (fst (vad_body maxlen ratio frame sp st)) =
     (if triggered st
      then \<not> of_nat (length (filter (\<lambda>(f, speech). \<not> speech)
                   (deque_append maxlen (frame, sp) (ring_buff st)))) > py_mul_float_int ratio maxlen
      else of_nat (length (filter (\<lambda>(f, speech). speech)
                   (deque_append maxlen (frame, sp) (ring_buff st)))) > py_mul_float_int ratio maxlen) \<and>
   py_mul_float_int ratio maxlen = fl Float64 (ratio * fl Float64 (of_nat maxlen)) \<and>
   (of_nat (length frames) \<le> py_mul_float_int ratio maxlen \<longrightarrow>
      \<not> triggered (fst (vad_loop vad rate maxlen ratio conv frames collector_init)) \<and>
      vad_collector frames vad rate maxlen ratio conv = [])"
proof -
  have "of_nat (length frames) \<le> py_mul_float_int ratio maxlen \<Longrightarrow>
      \<not> triggered (fst (vad_loop vad rate maxlen ratio conv frames collector_init)) \<and>
      snd (vad_loop vad rate maxlen ratio conv frames collector_init) = []"
    by (rule early_stream_silent) (simp_all add: collector_init_def)
  moreover have "py_mul_float_int ratio maxlen = fl Float64 (ratio * fl Float64 (of_nat maxlen))"
    by (simp only: py_mul_float_int_def)
  ultimately show ?thesis
    by (simp only: vad_body_triggered vad_collector_def) simp
qed

text \<open>
  With the ratio 0.6 (written 3/5) and capacity 5 a third voiced entry does not trigger (3 is not
  greater than the double \<open>0.6 * 5\<close>), and a stream of three speech frames yields
  nothing; with the ratio 0.58 (written 29/50) and capacity 50 the 29th voiced entry triggers, in a buffer
  that holds 29 of its 50 entries.
\<close>

theorem threshold_uses_capacity_witness:
  "triggered (fst (vad_body 5 (py_float (3/5)) [7] True
      \<lparr>ring_buff = [([1], True), ([2], True)], triggered = False, voiced_frames = []\<rparr>))
     = False \<and>
   of_nat (length [[1], [2], [3 :: byte]]) \<le> py_mul_float_int (py_float (3/5)) 5 \<and>
   vad_collector [[1], [2], [3]] (\<lambda>f r. True) 16000 5 (py_float (3/5)) id = [] \<and>
   triggered (fst (vad_body 50 (py_float (29/50)) [29] True
      \<lparr>ring_buff = [([1], True), ([2], True), ([3], True), ([4], True), ([5], True), ([6], True), ([7], True), ([8], True), ([9], True), ([10], True), ([11], True), ([12], True), ([13], True), ([14], True), ([15], True), ([16], True), ([17], True), ([18], True), ([19], True), ([20], True), ([21], True), ([22], True), ([23], True), ([24], True), ([25], True), ([26], True), ([27], True), ([28], True)], triggered = False, voiced_frames = []\<rparr>))
     = True"
proof -
  note a = threshold_uses_capacity [of 5 "py_float (3/5)" "[7]" True
      "\<lparr>ring_buff = [([1], True), ([2], True)], triggered = False, voiced_frames = []\<rparr>"
      "[[1], [2], [3]]" "\<lambda>f r. True" 16000 id]
  note b = threshold_uses_capacity [of 50 "py_float (29/50)" "[29]" True
      "\<lparr>ring_buff = [([1], True), ([2], True), ([3], True), ([4], True), ([5], True), ([6], True), ([7], True), ([8], True), ([9], True), ([10], True), ([11], True), ([12], True), ([13], True), ([14], True), ([15], True), ([16], True), ([17], True), ([18], True), ([19], True), ([20], True), ([21], True), ([22], True), ([23], True), ([24], True), ([25], True), ([26], True), ([27], True), ([28], True)], triggered = False, voiced_frames = []\<rparr>"
      "[]" "\<lambda>f r. True" 16000 id]
  from a [THEN conjunct1] a [THEN conjunct2, THEN conjunct2] b [THEN conjunct1]
  show ?thesis
    by (simp add: deque_append_def rounded_products)
qed

text \<open>The yielded items: a segment and a mark at each release, nothing otherwise.\<close>

lemma vad_body_out_transition:
  "snd (vad_body maxlen ratio frame sp st) =
     (if triggered st \<and> \<not> triggered (fst (vad_body maxlen ratio frame sp st))
      then [Some (concat (voiced_frames st @ [frame])), None] else [])"
  by (simp add: vad_body_def Let_def)

lemma vad_loop_shape:
  "segments_then_marks (snd (vad_loop vad rate maxlen ratio conv streamer st))"
proof (induction streamer arbitrary: st)
  case Nil
  show ?case by simp
next
  case (Cons frame streamer)
  show ?case
    using Cons.IH by (simp add: vad_loop_Cons vad_body_out del: vad_loop.simps)
qed

lemma vad_loop_nonempty_segments:
  "\<forall>f \<in> set streamer. f \<noteq> [] \<Longrightarrow>
     segments_nonempty (snd (vad_loop vad rate maxlen ratio conv streamer st))"
proof (induction streamer arbitrary: st)
  case Nil
  show ?case by simp
next
  case (Cons frame streamer)
  then have "frame \<noteq> []" and "\<forall>f \<in> set streamer. f \<noteq> []"
    by simp_all
  with Cons.IH show ?case
    by (simp add: vad_loop_Cons vad_body_out del: vad_loop.simps)
qed

text \<open>
  Claim C3.  An iteration yields something exactly when it takes the collector from
  the voiced to the silent state, and then it yields the joined voiced frames (all frames
  accumulated, the current one included) followed by one \<open>None\<close>.  So every yielded
  sequence consists of segments each followed at once by one mark; a segment joins at
  least one frame, and is not empty when no frame of the stream is empty.
\<close>

theorem release_yields_segment_then_mark:
  "snd (vad_body maxlen ratio frame sp st) =
     (if triggered st \<and> \<not> triggered (fst (vad_body maxlen ratio frame sp st))
      then [Some (concat (voiced_frames st @ [frame])), None] else []) \<and>
   segments_then_marks (vad_collector streamer vad rate maxlen ratio conv) \<and>
   ((\<forall>f \<in> set streamer. f \<noteq> []) \<longrightarrow>
      segments_nonempty (vad_collector streamer vad rate maxlen ratio conv))"
  using vad_body_out_transition [of maxlen ratio frame sp st]
    vad_loop_shape [of vad rate maxlen ratio conv streamer collector_init]
    vad_loop_nonempty_segments [of streamer vad rate maxlen ratio conv collector_init]
  by (simp only: vad_collector_def) simp

theorem release_yields_segment_then_mark_witness:
  "vad_body 2 (1/2) [9] False
      \<lparr>ring_buff = [([8], False)], triggered = True, voiced_frames = [[7], [8]]\<rparr>
     = (\<lparr>ring_buff = [], triggered = False, voiced_frames = []\<rparr>, [Some [7, 8, 9], None]) \<and>
   list_all (\<lambda>f. f \<noteq> []) [[1], [2], [0], [0 :: byte]] \<and>
   vad_collector [[1], [2], [0], [0]] (\<lambda>f r. f \<noteq> [0]) 16000 2 (1/2) id = [Some [1, 2, 0, 0], None] \<and>
   segments_nonempty (vad_collector [[1], [2], [0], [0]] (\<lambda>f r. f \<noteq> [0]) 16000 2 (1/2) id)"
  using release_yields_segment_then_mark [of 2 "1/2" "[9]" False
      "\<lparr>ring_buff = [([8], False)], triggered = True, voiced_frames = [[7], [8]]\<rparr>"
      "[[1], [2], [0], [0]]" "\<lambda>f r. f \<noteq> [0]" 16000 id]
  by (simp add: vad_collector_def vad_body_def deque_append_def collector_init_def exact_products)

lemma length_concat_tl: "length (concat (tl xs)) \<le> length (concat xs)"
  by (cases xs) simp_all

lemma deque_append_bytes:
  "length (concat (map fst (deque_append maxlen (frame, sp) dq)))
     \<le> length (concat (map fst dq)) + length frame"
proof -
  have "length (concat (tl (map fst (dq @ [(frame, sp)])))) \<le> length (concat (map fst (dq @ [(frame, sp)])))"
    by (rule length_concat_tl)
  then show ?thesis
    by (simp add: deque_append_def Let_def map_tl)
qed

lemma vad_body_bytes:
  "yielded_bytes (snd (vad_body maxlen ratio frame sp st)) + held_bytes (fst (vad_body maxlen ratio frame sp st))
     \<le> held_bytes st + length frame"
  using deque_append_bytes [of maxlen frame sp "ring_buff st"]
  by (simp add: vad_body_def held_bytes_def Let_def)

lemma yielded_bytes_append: "yielded_bytes (xs @ ys) = yielded_bytes xs + yielded_bytes ys"
  by (induction xs rule: yielded_bytes.induct) simp_all

lemma vad_loop_bytes:
  "yielded_bytes (snd (vad_loop vad rate maxlen ratio conv streamer st)) +
     held_bytes (fst (vad_loop vad rate maxlen ratio conv streamer st))
     \<le> held_bytes st + length (concat streamer)"
proof (induction streamer arbitrary: st)
  case Nil
  show ?case by simp
next
  case (Cons frame streamer)
  let ?b = "vad_body maxlen ratio frame (vad (conv frame) rate) st"
  have "yielded_bytes (snd (vad_loop vad rate maxlen ratio conv streamer (fst ?b))) +
     held_bytes (fst (vad_loop vad rate maxlen ratio conv streamer (fst ?b)))
     \<le> held_bytes (fst ?b) + length (concat streamer)"
    by (rule Cons.IH)
  moreover have "yielded_bytes (snd ?b) + held_bytes (fst ?b) \<le> held_bytes st + length frame"
    by (rule vad_body_bytes)
  ultimately show ?case
    by (simp add: vad_loop_Cons yielded_bytes_append del: vad_loop.simps)
qed

lemma deque_append_empty: "deque_append maxlen x dq = [] \<Longrightarrow> maxlen = 0"
  by (cases dq) (simp_all add: deque_append_def Let_def split: if_splits)

lemma vad_body_voiced_nonempty:
  assumes "\<not> triggered st" and "triggered (fst (vad_body maxlen ratio frame sp st))"
  shows "voiced_frames (fst (vad_body maxlen ratio frame sp st)) \<noteq> []"
proof -
  let ?rb = "deque_append maxlen (frame, sp) (ring_buff st)"
  from assms have over: "of_nat (length (filter (\<lambda>(f, speech). speech) ?rb)) > py_mul_float_int ratio maxlen"
    by (simp add: vad_body_triggered)
  have "?rb \<noteq> []"
  proof
    assume empty: "?rb = []"
    then have "maxlen = 0" by (rule deque_append_empty)
    with over empty show False by (simp add: py_mul_float_int_zero)
  qed
  with assms(1) over show ?thesis
    by (simp add: vad_body_def Let_def)
qed

lemma vad_body_voiced_keeps:
  "triggered st \<Longrightarrow> triggered (fst (vad_body maxlen ratio frame sp st)) \<Longrightarrow>
     voiced_frames (fst (vad_body maxlen ratio frame sp st)) \<noteq> []"
  by (auto simp: vad_body_def Let_def split: if_splits)

lemma vad_loop_voiced_nonempty:
  "triggered st \<longrightarrow> voiced_frames st \<noteq> [] \<Longrightarrow>
   triggered (fst (vad_loop vad rate maxlen ratio conv streamer st)) \<Longrightarrow>
   voiced_frames (fst (vad_loop vad rate maxlen ratio conv streamer st)) \<noteq> []"
proof (induction streamer arbitrary: st)
  case Nil
  then show ?case by simp
next
  case (Cons frame streamer)
  let ?st = "fst (vad_body maxlen ratio frame (vad (conv frame) rate) st)"
  have "triggered ?st \<longrightarrow> voiced_frames ?st \<noteq> []"
    using vad_body_voiced_nonempty [of st maxlen ratio frame "vad (conv frame) rate"]
      vad_body_voiced_keeps [of st maxlen ratio frame "vad (conv frame) rate"]
    by blast
  moreover from Cons.prems(2)
  have "triggered (fst (vad_loop vad rate maxlen ratio conv streamer ?st))"
    by (simp add: vad_loop_Cons del: vad_loop.simps)
  ultimately have "voiced_frames (fst (vad_loop vad rate maxlen ratio conv streamer ?st)) \<noteq> []"
    by (rule Cons.IH)
  then show ?case
    by (simp add: vad_loop_Cons del: vad_loop.simps)
qed

lemma segments_then_marks_last:
  "segments_then_marks outs \<Longrightarrow> outs \<noteq> [] \<Longrightarrow> last outs = None"
  by (induction outs rule: segments_then_marks.induct) auto

text \<open>
  Claim C4.  When the stream ends in the voiced state, the frames accumulated for the
  segment in progress (at least one) are not yielded: the loop yields nothing at the end
  of the stream, the sequence yielded is empty or ends with the mark of an earlier
  release, and the bytes yielded together with the bytes still held are no more than the
  bytes of the stream.
\<close>

theorem no_flush_at_end_of_stream:
  assumes "vad_loop vad rate maxlen ratio conv streamer collector_init = (st, outs)"
    and "triggered st"
  shows "vad_collector streamer vad rate maxlen ratio conv = outs \<and>
         vad_loop vad rate maxlen ratio conv [] st = (st, []) \<and>
         voiced_frames st \<noteq> [] \<and>
         (outs = [] \<or> last outs = None) \<and>
         yielded_bytes outs + length (concat (voiced_frames st)) \<le> length (concat streamer)"
proof -
  have st: "st = fst (vad_loop vad rate maxlen ratio conv streamer collector_init)"
    and outs: "outs = snd (vad_loop vad rate maxlen ratio conv streamer collector_init)"
    using assms(1) by simp_all
  have "voiced_frames st \<noteq> []"
    unfolding st
    by (rule vad_loop_voiced_nonempty) (use assms(2) in \<open>simp_all add: collector_init_def st\<close>)
  moreover have "segments_then_marks outs"
    unfolding outs by (rule vad_loop_shape)
  then have "outs = [] \<or> last outs = None"
    by (cases "outs = []") (simp_all add: segments_then_marks_last)
  moreover have "yielded_bytes outs + held_bytes st \<le> held_bytes collector_init + length (concat streamer)"
    unfolding st outs by (rule vad_loop_bytes)
  then have "yielded_bytes outs + length (concat (voiced_frames st)) \<le> length (concat streamer)"
    using assms(2) by (simp add: held_bytes_def collector_init_def)
  ultimately show ?thesis
    using outs by (simp add: vad_collector_def)
qed

theorem no_flush_at_end_of_stream_witness:
  "vad_loop (\<lambda>f r. f \<noteq> [0]) 16000 4 (1/2) id [[1], [0], [2], [3], [4]] collector_init =
     (\<lparr>ring_buff = [([4], True)], triggered = True, voiced_frames = [[1], [0], [2], [3], [4]]\<rparr>, []) \<and>
   vad_collector [[1], [0], [2], [3], [4]] (\<lambda>f r. f \<noteq> [0]) 16000 4 (1/2) id = []"
proof -
  have run: "vad_loop (\<lambda>f r. f \<noteq> [0]) 16000 4 (1/2) id [[1], [0], [2], [3], [4]] collector_init =
     (\<lparr>ring_buff = [([4], True)], triggered = True, voiced_frames = [[1], [0], [2], [3], [4]]\<rparr>, [])"
    by (simp add: vad_body_def deque_append_def collector_init_def exact_products)
  have "triggered \<lparr>ring_buff = [([4], True)], triggered = True, voiced_frames = [[1], [0], [2], [3], [4 :: byte]]\<rparr>"
    by simp
  from no_flush_at_end_of_stream [OF run this] run show ?thesis
    by simp
qed

lemma vad_body_silent_stay:
  assumes "\<not> triggered st"
    and "of_nat (Suc (length (ring_buff st))) \<le> py_mul_float_int ratio maxlen"
    and "length (ring_buff st) < maxlen"
  shows "vad_body maxlen ratio frame sp st = (st\<lparr>ring_buff := ring_buff st @ [(frame, sp)]\<rparr>, [])"
proof -
  have rb: "deque_append maxlen (frame, sp) (ring_buff st) = ring_buff st @ [(frame, sp)]"
    using assms(3) by (rule deque_append_room)
  have "length (filter (\<lambda>(f, speech). speech) (ring_buff st @ [(frame, sp)])) \<le> Suc (length (ring_buff st))"
    using length_filter_le [of "\<lambda>(f, speech). speech" "ring_buff st @ [(frame, sp)]"] by simp
  then have "(of_nat (length (filter (\<lambda>(f, speech). speech) (ring_buff st @ [(frame, sp)]))) :: rat)
      \<le> of_nat (Suc (length (ring_buff st)))"
    by (simp only: of_nat_le_iff)
  with assms(2) have "\<not> of_nat (length (filter (\<lambda>(f, speech). speech) (ring_buff st @ [(frame, sp)])))
      > py_mul_float_int ratio maxlen"
    by linarith
  with assms(1) show ?thesis
    by (simp add: vad_body_def rb Let_def)
qed

lemma silent_ring:
  "\<not> triggered st \<Longrightarrow>
   of_nat (length (ring_buff st) + length frames) \<le> py_mul_float_int ratio maxlen \<Longrightarrow>
   length (ring_buff st) + length frames \<le> maxlen \<Longrightarrow>
   vad_loop vad rate maxlen ratio conv frames st =
     (st\<lparr>ring_buff := ring_buff st @ map (\<lambda>f. (f, vad (conv f) rate)) frames\<rparr>, [])"
proof (induction frames arbitrary: st)
  case Nil
  show ?case by simp
next
  case (Cons frame frames)
  let ?st = "st\<lparr>ring_buff := ring_buff st @ [(frame, vad (conv frame) rate)]\<rparr>"
  have "(of_nat (Suc (length (ring_buff st))) :: rat) \<le> of_nat (length (ring_buff st) + length (frame # frames))"
    by (simp only: of_nat_le_iff) simp
  with Cons.prems(2) have "of_nat (Suc (length (ring_buff st))) \<le> py_mul_float_int ratio maxlen"
    by linarith
  with Cons.prems(1)
  have body: "vad_body maxlen ratio frame (vad (conv frame) rate) st = (?st, [])"
    by (rule vad_body_silent_stay) (use Cons.prems(3) in simp)
  have "vad_loop vad rate maxlen ratio conv frames ?st =
     (?st\<lparr>ring_buff := ring_buff ?st @ map (\<lambda>f. (f, vad (conv f) rate)) frames\<rparr>, [])"
    by (rule Cons.IH) (use Cons.prems in simp_all)
  then show ?case
    by (simp add: vad_loop_Cons body del: vad_loop.simps)
qed

lemma voiced_first_segment:
  "triggered st \<Longrightarrow>
   snd (vad_loop vad rate maxlen ratio conv rest st) = [] \<or>
   (\<exists>n tail. snd (vad_loop vad rate maxlen ratio conv rest st) =
       Some (concat (voiced_frames st @ take n rest)) # None # tail)"
proof (induction rest arbitrary: st)
  case Nil
  show ?case by simp
next
  case (Cons frame rest)
  let ?b = "vad_body maxlen ratio frame (vad (conv frame) rate) st"
  show ?case
  proof (cases "triggered (fst ?b)")
    case False
    with Cons.prems have "snd ?b = [Some (concat (voiced_frames st @ take 1 (frame # rest))), None]"
      by (simp add: vad_body_out_transition)
    then have "snd (vad_loop vad rate maxlen ratio conv (frame # rest) st) =
        Some (concat (voiced_frames st @ take 1 (frame # rest))) # None #
          snd (vad_loop vad rate maxlen ratio conv rest (fst ?b))"
      by (simp add: vad_loop_Cons del: vad_loop.simps)
    then show ?thesis by blast
  next
    case True
    with Cons.prems have out: "snd ?b = []" and vf: "voiced_frames (fst ?b) = voiced_frames st @ [frame]"
      by (simp_all add: vad_body_out_transition) (auto simp: vad_body_def Let_def split: if_splits)
    from Cons.IH [OF True]
    show ?thesis
    proof
      assume "snd (vad_loop vad rate maxlen ratio conv rest (fst ?b)) = []"
      then show ?thesis
        by (simp add: vad_loop_Cons out del: vad_loop.simps)
    next
      assume "\<exists>n tail. snd (vad_loop vad rate maxlen ratio conv rest (fst ?b)) =
          Some (concat (voiced_frames (fst ?b) @ take n rest)) # None # tail"
      then obtain n tail where "snd (vad_loop vad rate maxlen ratio conv rest (fst ?b)) =
          Some (concat (voiced_frames (fst ?b) @ take n rest)) # None # tail"
        by blast
      then have "snd (vad_loop vad rate maxlen ratio conv (frame # rest) st) =
          Some (concat (voiced_frames st @ take (Suc n) (frame # rest))) # None # tail"
        by (simp add: vad_loop_Cons out vf del: vad_loop.simps)
      then show ?thesis by blast
    qed
  qed
qed

text \<open>
  Claim C1, as stated, fails: with capacity 20 and ratio 0.9 the collector triggers when
  the voiced count is greater than the double \<open>0.9 * 20\<close>, which is 18, so after 18
  speech frames it is still silent.
\<close>

theorem eighteen_speech_frames_counterexample:
  "triggered (fst (vad_loop (\<lambda>f r. True) 16000 20 (py_float (9/10)) id
      [[1], [2], [3], [4], [5], [6], [7], [8], [9], [10], [11], [12], [13], [14], [15], [16],
       [17], [18]] collector_init)) = False"
  by (simp add: vad_body_def deque_append_def collector_init_def default_threshold)

text \<open>
  Claim C1, amended.  With capacity 20 and ratio 0.9, 19 consecutive speech frames fed
  to the silent collector trigger it exactly at the 19th frame, and the next segment
  yielded, if any, begins with those 19 frames in their order.
\<close>

theorem nineteen_speech_frames_trigger:
  assumes "length fs = 19" and "\<forall>f \<in> set fs. vad (conv f) rate"
  shows "(\<forall>k < 19. \<not> triggered (fst (vad_loop vad rate 20 (py_float (9/10)) conv (take k fs) collector_init))) \<and>
         vad_loop vad rate 20 (py_float (9/10)) conv fs collector_init =
           (\<lparr>ring_buff = [], triggered = True, voiced_frames = fs\<rparr>, []) \<and>
         (vad_collector (fs @ rest) vad rate 20 (py_float (9/10)) conv = [] \<or>
          (\<exists>n tail. vad_collector (fs @ rest) vad rate 20 (py_float (9/10)) conv =
              Some (concat (fs @ take n rest)) # None # tail))"
proof -
  have before: "\<not> triggered (fst (vad_loop vad rate 20 (py_float (9/10)) conv (take k fs) collector_init))"
    if "k < 19" for k
  proof -
    have "(of_nat (length (ring_buff collector_init) + length (take k fs)) :: rat) \<le> py_mul_float_int (py_float (9/10)) 20"
      using that assms(1) by (simp add: collector_init_def default_threshold)
    with early_stream_silent [of collector_init "take k fs" "py_float (9/10)" 20 vad rate conv]
    show ?thesis by (simp add: collector_init_def)
  qed
  from assms(1) have ne: "fs \<noteq> []" by auto
  then have split: "fs = butlast fs @ [last fs]" by simp
  have len: "length (butlast fs) = 18" using assms(1) by simp
  have sp: "map (\<lambda>f. (f, vad (conv f) rate)) (butlast fs) = map (\<lambda>f. (f, True)) (butlast fs)"
    using assms(2) by (auto dest: in_set_butlastD)
  have lastsp: "vad (conv (last fs)) rate"
    using assms(2) ne by simp
  have first: "vad_loop vad rate 20 (py_float (9/10)) conv (butlast fs) collector_init =
      (\<lparr>ring_buff = map (\<lambda>f. (f, True)) (butlast fs), triggered = False, voiced_frames = []\<rparr>, [])"
    using silent_ring [of collector_init "butlast fs" "py_float (9/10)" 20 vad rate conv]
    by (simp add: collector_init_def assms(1) sp default_threshold)
  have "vad_body 20 (py_float (9/10)) (last fs) True
      \<lparr>ring_buff = map (\<lambda>f. (f, True)) (butlast fs), triggered = False, voiced_frames = []\<rparr> =
      (\<lparr>ring_buff = [], triggered = True, voiced_frames = butlast fs @ [last fs]\<rparr>, [])"
    by (simp add: vad_body_def deque_append_def Let_def assms(1) filter_map comp_def default_threshold)
  then have last: "vad_loop vad rate 20 (py_float (9/10)) conv [last fs]
      \<lparr>ring_buff = map (\<lambda>f. (f, True)) (butlast fs), triggered = False, voiced_frames = []\<rparr> =
      (\<lparr>ring_buff = [], triggered = True, voiced_frames = fs\<rparr>, [])"
    using lastsp ne by simp
  have "vad_loop vad rate 20 (py_float (9/10)) conv (butlast fs @ [last fs]) collector_init =
      (\<lparr>ring_buff = [], triggered = True, voiced_frames = fs\<rparr>, [])"
    by (simp only: vad_loop_append first last fst_conv snd_conv append_Nil)
  with split have whole: "vad_loop vad rate 20 (py_float (9/10)) conv fs collector_init =
      (\<lparr>ring_buff = [], triggered = True, voiced_frames = fs\<rparr>, [])"
    by simp
  have "vad_collector (fs @ rest) vad rate 20 (py_float (9/10)) conv =
      snd (vad_loop vad rate 20 (py_float (9/10)) conv rest \<lparr>ring_buff = [], triggered = True, voiced_frames = fs\<rparr>)"
    by (simp only: vad_collector_def vad_loop_append whole fst_conv snd_conv append_Nil)
  moreover have "snd (vad_loop vad rate 20 (py_float (9/10)) conv rest \<lparr>ring_buff = [], triggered = True, voiced_frames = fs\<rparr>) = [] \<or>
   (\<exists>n tail. snd (vad_loop vad rate 20 (py_float (9/10)) conv rest \<lparr>ring_buff = [], triggered = True, voiced_frames = fs\<rparr>) =
       Some (concat (voiced_frames \<lparr>ring_buff = [], triggered = True, voiced_frames = fs\<rparr> @ take n rest)) # None # tail)"
    by (rule voiced_first_segment) simp
  ultimately have "vad_collector (fs @ rest) vad rate 20 (py_float (9/10)) conv = [] \<or>
          (\<exists>n tail. vad_collector (fs @ rest) vad rate 20 (py_float (9/10)) conv =
              Some (concat (fs @ take n rest)) # None # tail)"
    by simp
  with before whole show ?thesis by blast
qed

theorem nineteen_speech_frames_trigger_witness:
  "length [[1], [2], [3], [4], [5], [6], [7], [8], [9], [10], [11], [12], [13], [14], [15], [16],
       [17], [18], [19 :: byte]] = 19 \<and>
   list_all (\<lambda>f. id f \<noteq> [0])
     [[1], [2], [3], [4], [5], [6], [7], [8], [9], [10], [11], [12], [13], [14], [15], [16],
       [17], [18], [19 :: byte]] \<and>
   vad_loop (\<lambda>f r. f \<noteq> [0]) 16000 20 (py_float (9/10)) id
     [[1], [2], [3], [4], [5], [6], [7], [8], [9], [10], [11], [12], [13], [14], [15], [16],
       [17], [18], [19]] collector_init =
     (\<lparr>ring_buff = [], triggered = True,
       voiced_frames = [[1], [2], [3], [4], [5], [6], [7], [8], [9], [10], [11], [12], [13], [14],
         [15], [16], [17], [18], [19]]\<rparr>, []) \<and>
   vad_collector
     ([[1], [2], [3], [4], [5], [6], [7], [8], [9], [10], [11], [12], [13], [14], [15], [16],
       [17], [18], [19]] @
      [[0], [0], [0], [0], [0], [0], [0], [0], [0], [0], [0], [0], [0], [0], [0], [0], [0], [0], [0]])
     (\<lambda>f r. f \<noteq> [0]) 16000 20 (py_float (9/10)) id =
     [Some [1, 2, 3, 4, 5, 6, 7, 8, 9, 10, 11, 12, 13, 14, 15, 16, 17, 18, 19,
            0, 0, 0, 0, 0, 0, 0, 0, 0, 0, 0, 0, 0, 0, 0, 0, 0, 0, 0], None]"
  using nineteen_speech_frames_trigger [of
      "[[1], [2], [3], [4], [5], [6], [7], [8], [9], [10], [11], [12], [13], [14], [15], [16],
       [17], [18], [19]]" "\<lambda>f r. f \<noteq> [0]" id 16000
      "[[0], [0], [0], [0], [0], [0], [0], [0], [0], [0], [0], [0], [0], [0], [0], [0], [0], [0], [0]]"]
  by (simp add: vad_collector_def vad_body_def deque_append_def collector_init_def default_threshold)

section \<open>The response loop\<close>

lemma handle_response_ignored: "\<not> passes_filter response \<Longrightarrow> handle_response text_batcher response w = w"
  by (simp add: handle_response_def)

lemma passes_filter_iff:
  "passes_filter response =
     (1 \<le> length (results response) \<and>
      (1 < length (results response) \<or> is_final (results response ! 0)))"
  by (cases "results response") (simp_all add: passes_filter_def)

lemma passes_filter_Cons:
  "results response = r # rs \<Longrightarrow> passes_filter response = (rs \<noteq> [] \<or> is_final r)"
  by (cases rs) (simp_all add: passes_filter_def)

text \<open>What a response that passes the filter does, without and with a batcher.\<close>

lemma handle_response_no_batcher:
  assumes "results response = r # rs" and "rs \<noteq> [] \<or> is_final r"
    and "alternatives r = alt # alts"
  shows "handle_response None response w =
           w\<lparr>processed := processed w @ (if is_final r then [([transcript alt], True)] else []),
             printed := printed w @ (if is_final r then [final_report (transcript alt)] else [])\<rparr>"
proof -
  have "passes_filter response"
    using assms(1,2) by (simp add: passes_filter_Cons)
  then show ?thesis
    using assms(1,3) by (simp add: handle_response_def Let_def)
qed

lemma handle_response_batcher:
  assumes "results response = r # rs" and "rs \<noteq> [] \<or> is_final r"
    and "alternatives r = alt # alts"
    and "get_batch (batcher_state w) (transcript alt) (is_final r) = (b, s)"
  shows "handle_response (Some get_batch) response w =
           w\<lparr>batcher_state := s,
             processed := processed w @ (if truthy b then [(the b, is_final r)] else []),
             printed := printed w @ (if is_final r then [final_report (transcript alt)] else [])\<rparr>"
proof -
  have "passes_filter response"
    using assms(1,2) by (simp add: passes_filter_Cons)
  then show ?thesis
    using assms(1,3,4) by (simp add: handle_response_def Let_def)
qed

text \<open>
  Claim C6.  A response passes the filter exactly when it has at least one result and
  either more than one result or a final first result.  A response that does not pass,
  such as one without results or one whose only result is not final, leaves the batcher,
  the batch processor and the output untouched.  A response with a first result and
  either further results or a final first result is processed from the first alternative
  of its first result: without a batcher the transcript is handed on as a batch when the
  result is final; with a batcher the batcher is called with the transcript and the
  finality, and its batch is handed on when it is not empty; the report is printed when
  the result is final.
\<close>

theorem filter_decides_processing:
  "passes_filter response =
     (1 \<le> length (results response) \<and>
      (1 < length (results response) \<or> is_final (results response ! 0))) \<and>
   (\<not> passes_filter response \<longrightarrow> handle_response text_batcher response w = w) \<and>
   (results response = [] \<longrightarrow> handle_response text_batcher response w = w) \<and>
   (results response = [r] \<and> \<not> is_final r \<longrightarrow> handle_response text_batcher response w = w) \<and>
   (results response = r # rs \<and> (rs \<noteq> [] \<or> is_final r) \<and> alternatives r = alt # alts \<longrightarrow>
      handle_response None response w =
        w\<lparr>processed := processed w @ (if is_final r then [([transcript alt], True)] else []),
          printed := printed w @ (if is_final r then [final_report (transcript alt)] else [])\<rparr>) \<and>
   (results response = r # rs \<and> (rs \<noteq> [] \<or> is_final r) \<and> alternatives r = alt # alts \<and>
    get_batch (batcher_state w) (transcript alt) (is_final r) = (b, s) \<longrightarrow>
      handle_response (Some get_batch) response w =
        w\<lparr>batcher_state := s,
          processed := processed w @ (if truthy b then [(the b, is_final r)] else []),
          printed := printed w @ (if is_final r then [final_report (transcript alt)] else [])\<rparr>)"
proof -
  have "handle_response text_batcher response w = w" if "results response = []"
    using that by (simp add: handle_response_def passes_filter_def)
  moreover have "handle_response text_batcher response w = w"
    if "results response = [r] \<and> \<not> is_final r"
    using that by (simp add: handle_response_def passes_filter_def)
  ultimately show ?thesis
    using passes_filter_iff [of response] handle_response_ignored [of response text_batcher w]
      handle_response_no_batcher [of response r rs alt alts w]
      handle_response_batcher [of response r rs alt alts get_batch w b s]
    by blast
qed

text \<open>
  A response with two results whose first is not final is processed: the batcher is
  called with the first transcript and \<open>reset\<close> false, and its batch is handed on.  The
  same first result alone is ignored, and the batcher is not called.
\<close>

theorem filter_decides_processing_witness:
  "handle_response (Some (\<lambda>s text reset. (Some [text], Suc s)))
     \<lparr>results = [\<lparr>alternatives = [\<lparr>transcript = ''turn'', confidence = 1/2\<rparr>], is_final = False\<rparr>,
                 \<lparr>alternatives = [\<lparr>transcript = '' left'', confidence = 0\<rparr>], is_final = False\<rparr>]\<rparr>
     \<lparr>batcher_state = 0, processed = [], printed = []\<rparr>
     = \<lparr>batcher_state = 1, processed = [([''turn''], False)], printed = []\<rparr> \<and>
   handle_response (Some (\<lambda>s text reset. (Some [text], Suc s)))
     \<lparr>results = [\<lparr>alternatives = [\<lparr>transcript = ''turn'', confidence = 1/2\<rparr>], is_final = False\<rparr>]\<rparr>
     \<lparr>batcher_state = 0, processed = [], printed = []\<rparr>
     = \<lparr>batcher_state = 0, processed = [], printed = []\<rparr> \<and>
   handle_response (Some (\<lambda>s text reset. (Some [text], Suc s))) \<lparr>results = []\<rparr>
     \<lparr>batcher_state = 0, processed = [], printed = []\<rparr>
     = \<lparr>batcher_state = 0, processed = [], printed = []\<rparr>"
  using filter_decides_processing [of
      "\<lparr>results = [\<lparr>alternatives = [\<lparr>transcript = ''turn'', confidence = 1/2\<rparr>], is_final = False\<rparr>,
                 \<lparr>alternatives = [\<lparr>transcript = '' left'', confidence = 0\<rparr>], is_final = False\<rparr>]\<rparr>"
      "Some (\<lambda>s text reset. (Some [text], Suc s))"
      "\<lparr>batcher_state = 0 :: nat, processed = [], printed = []\<rparr>"
      "\<lparr>alternatives = [\<lparr>transcript = ''turn'', confidence = 1/2\<rparr>], is_final = False\<rparr>"
      "[\<lparr>alternatives = [\<lparr>transcript = '' left'', confidence = 0\<rparr>], is_final = False\<rparr>]"
      "\<lparr>transcript = ''turn'', confidence = 1/2\<rparr>" "[]"
      "\<lambda>s text reset. (Some [text], Suc s)" "Some [''turn'']" 1]
    filter_decides_processing [of
      "\<lparr>results = [\<lparr>alternatives = [\<lparr>transcript = ''turn'', confidence = 1/2\<rparr>], is_final = False\<rparr>]\<rparr>"
      "Some (\<lambda>s text reset. (Some [text], Suc s))"
      "\<lparr>batcher_state = 0 :: nat, processed = [], printed = []\<rparr>"
      "\<lparr>alternatives = [\<lparr>transcript = ''turn'', confidence = 1/2\<rparr>], is_final = False\<rparr>"
      "[]" "\<lparr>transcript = ''turn'', confidence = 1/2\<rparr>" "[]"
      "\<lambda>s text reset. (Some [text], Suc s)" "Some [''turn'']" 1]
    filter_decides_processing [of "\<lparr>results = []\<rparr>"
      "Some (\<lambda>s text reset. (Some [text], Suc s))"
      "\<lparr>batcher_state = 0 :: nat, processed = [], printed = []\<rparr>"
      "\<lparr>alternatives = [], is_final = False\<rparr>" "[]"
      "\<lparr>transcript = ''turn'', confidence = 1/2\<rparr>" "[]"
      "\<lambda>s text reset. (Some [text], Suc s)" "Some [''turn'']" 1]
  by (simp add: passes_filter_def)

text \<open>
  Claim C10.  A response that passes the filter but whose first result has no
  alternatives changes nothing: the batcher is not called, nothing is handed to the batch
  processor, nothing is printed.
\<close>

theorem empty_alternatives_no_effect:
  "passes_filter response \<Longrightarrow> alternatives (hd (results response)) = [] \<Longrightarrow>
     handle_response text_batcher response w = w"
  by (simp add: handle_response_def)

theorem empty_alternatives_no_effect_witness:
  "passes_filter \<lparr>results = [\<lparr>alternatives = [], is_final = True\<rparr>]\<rparr> \<and>
   alternatives (hd (results \<lparr>results = [\<lparr>alternatives = [], is_final = True\<rparr>]\<rparr>)) = [] \<and>
   handle_response (Some (\<lambda>s text reset. (Some [text], Suc s)))
     \<lparr>results = [\<lparr>alternatives = [], is_final = True\<rparr>]\<rparr>
     \<lparr>batcher_state = 0, processed = [], printed = []\<rparr>
     = \<lparr>batcher_state = 0, processed = [], printed = []\<rparr>"
  using empty_alternatives_no_effect [of "\<lparr>results = [\<lparr>alternatives = [], is_final = True\<rparr>]\<rparr>"
      "Some (\<lambda>s text reset. (Some [text], Suc s))"
      "\<lparr>batcher_state = 0 :: nat, processed = [], printed = []\<rparr>"]
  by (simp add: passes_filter_def)

text \<open>
  The integer confidence of 0.87, as a double and as the single-precision number the
  recognition service sends; for 0.29 the rounded product gives 28.
\<close>

lemma confidence_087:
  "confidence_percent \<lparr>transcript = ''hello'', confidence = py_float (87/100)\<rparr> = 87"
  "confidence_percent \<lparr>transcript = ''hello'', confidence = fl Float32 (87/100)\<rparr> = 87"
  "confidence_percent \<lparr>transcript = ''hello'', confidence = py_float (29/100)\<rparr> = 28"
  by code_simp+

text \<open>
  Claim C5.  For the only, final result "hello" with confidence 0.87 and no batcher,
  the source hands the batch holding "hello" to the batch processor with \<open>reset\<close>
  true and computes the integer confidence 87, but the report it prints holds the
  transcript only: 87 does not occur in it.
\<close>

theorem final_report_omits_confidence:
  "handle_response None
      \<lparr>results = [\<lparr>alternatives = [\<lparr>transcript = ''hello'', confidence = py_float (87/100)\<rparr>],
                   is_final = True\<rparr>]\<rparr>
      \<lparr>batcher_state = (), processed = [], printed = []\<rparr> =
     \<lparr>batcher_state = (), processed = [([''hello''], True)],
      printed = [''--Final--'' @ [CHR 0x0A] @ '' hello '' @ [CHR 0x0A] @ ''---'' @ [CHR 0x0A, CHR 0x0A]]\<rparr> \<and>
   confidence_percent \<lparr>transcript = ''hello'', confidence = py_float (87/100)\<rparr> = 87 \<and>
   \<not> contains (''--Final--'' @ [CHR 0x0A] @ '' hello '' @ [CHR 0x0A] @ ''---'' @ [CHR 0x0A, CHR 0x0A]) ''87''"
  by (simp add: handle_response_def passes_filter_def final_report_def py_print_def Let_def
      confidence_087)

section \<open>Format conversion\<close>

text \<open>
  Claim C7.  The source reads \<open>self.resample_rate\<close> and \<open>self.sample_rate\<close>
  in a function that has no \<open>self\<close>: every call raises \<open>NameError\<close>, and no
  samples are returned.
\<close>

theorem audio_resample_raises_NameError:
  "audio_resample utils_globals (\<lambda>d n. take (nat n) d) [0, 1, 0, -1 :: rat] 16000 8000
     = Inl (NameError ''self'')"
  by (simp add: audio_resample_def load_global_def utils_globals_def)

text \<open>The same holds for every argument.\<close>

lemma audio_resample_always_fails:
  "audio_resample utils_globals signal_resample data sample_rate resample_rate = Inl (NameError ''self'')"
  by (simp add: audio_resample_def load_global_def utils_globals_def)






lemma iinfo_max_exact_cases:
  "(fl dtype (of_int (iinfo_max t)) = of_int (iinfo_max t)) =
     (t \<in> {Int8, Int16, UInt8, UInt16} \<or> dtype = Float64 \<and> t \<in> {Int32, UInt32})"
  by (cases dtype; cases t) (hypsubst, code_simp)+

lemma iinfo_max_rounded_up:
  "fl Float32 (of_int (iinfo_max Int32)) = 2 ^ 31"
  "fl Float64 (of_int (iinfo_max Int64)) = 2 ^ 63"
  by code_simp+




end
